theory Spec2Isabelle
  imports Main "HOL-Library.Sublist"
begin

section \<open>Errors\<close>

text \<open>
  Every exception the modelled code can raise is a value. The two \<open>ValueError\<close>s of the
  record handler differ only in their message: the handler's own text, and the one pandas
  builds from the two lengths (\<open>Length of values (n) does not match length of index (m)\<close>),
  kept here as the two numbers. The remaining constructors are the \<open>OSError\<close> subclasses
  of the folder script.
\<close>

datatype message = Text string | LengthMismatch nat nat

datatype error =
    ValueError message
  | FileExistsError
  | FileNotFoundError
  | NotADirectoryError
  | IsADirectoryError

section \<open>The record handler (notebook 08, class \<open>DataHandler\<close>)\<close>

text \<open>
  A pandas \<open>DataFrame\<close> is its column labels and its rows; a \<open>Series\<close> is a list of
  labelled values. \<open>pd.Series(values, index=labels)\<close> raises \<open>ValueError\<close> when a list
  of values and the index differ in length. \<open>DataFrame.append(row, ignore_index=True)\<close>
  (pandas before 2.0, the version the notebook's solution is written for) returns a frame
  with the row added at the end; the row is always indexed by the frame's own columns
  here, so no column is added and the values line up by position.
\<close>

record 'a DataFrame =
  columns :: "string list"
  rows :: "'a list list"

type_synonym 'a Series = "(string \<times> 'a) list"

definition pd_Series :: "'a list \<Rightarrow> string list \<Rightarrow> error + 'a Series" where
  "pd_Series vals index =
     (if length vals = length index then Inr (zip index vals)
      else Inl (ValueError (LengthMismatch (length vals) (length index))))"

definition DataFrame_append :: "'a DataFrame \<Rightarrow> 'a Series \<Rightarrow> 'a DataFrame" where
  "DataFrame_append df new_row = df\<lparr>rows := rows df @ [map snd new_row]\<rparr>"

text \<open>
  \<open>default_columns\<close> is a class attribute: one value shared by the class and every
  instance. \<open>data\<close> is the instance attribute. A method that raises returns the error
  together with the instance as it is at the raise.
\<close>

record DataHandler_class =
  default_columns :: "string list"

record 'a DataHandler =
  data :: "'a DataFrame"

definition DataHandler_class0 :: DataHandler_class where
  "DataHandler_class0 = \<lparr>default_columns = [''name'', ''age'', ''salary'']\<rparr>"

definition set_default_columns :: "string list \<Rightarrow> DataHandler_class \<Rightarrow> DataHandler_class" where
  "set_default_columns cols cls = cls\<lparr>default_columns := cols\<rparr>"

definition validate_record :: "DataHandler_class \<Rightarrow> 'a list \<Rightarrow> bool" where
  "validate_record cls record = (length record = length (default_columns cls))"

definition add_record ::
  "DataHandler_class \<Rightarrow> 'a list \<Rightarrow> 'a DataHandler \<Rightarrow> error option \<times> 'a DataHandler" where
  "add_record cls record self =
     (if validate_record cls record then
        (case pd_Series record (columns (data self)) of
           Inl e \<Rightarrow> (Some e, self)
         | Inr new_row \<Rightarrow> (None, self\<lparr>data := DataFrame_append (data self) new_row\<rparr>))
      else
        (Some (ValueError (Text ''Record does not have the correct number of columns'')), self))"

section \<open>The statistics functions (pytest notebook)\<close>

text \<open>
  The three functions guard against an empty list and then compute in the arithmetic of
  Python and numpy: float64 rounding, overflow to an infinity, \<open>nan\<close>, the conversion
  of Python integers (with its \<open>OverflowError\<close>), the order in which numpy sums. None
  of this is fixed by the code of the notebook, so the operations the code calls are
  parameters here, each returning its value or the exception it raises. \<open>'n\<close> is the
  type of the numbers in the list, \<open>'f\<close> the type of the results, \<open>'x\<close> the type of
  the exceptions of the arithmetic.
\<close>

record ('n, 'f, 'x) arithmetic =
  py_sum :: "'n list \<Rightarrow> 'x + 'n"
  py_truediv :: "'n \<Rightarrow> nat \<Rightarrow> 'x + 'f"
  np_mean :: "'n list \<Rightarrow> 'x + 'f"
  np_std :: "'n list \<Rightarrow> 'x + 'f"
  np_subtract :: "'n \<Rightarrow> 'f \<Rightarrow> 'x + 'f"
  np_true_divide :: "'f \<Rightarrow> 'f \<Rightarrow> 'x + 'f"

text \<open>
  An exception of a function is either raised by a \<open>raise\<close> statement of the function
  itself or comes out of an operation it calls.
\<close>

datatype 'x exception = Raised error | Library 'x

text \<open>
  A list comprehension evaluates its elements from left to right and stops at the first
  exception.
\<close>

fun comprehension :: "('a \<Rightarrow> 'x + 'b) \<Rightarrow> 'a list \<Rightarrow> 'x + 'b list" where
  "comprehension f [] = Inr []"
| "comprehension f (x # xs) =
     (case f x of
        Inl e \<Rightarrow> Inl e
      | Inr y \<Rightarrow> (case comprehension f xs of Inl e \<Rightarrow> Inl e | Inr ys \<Rightarrow> Inr (y # ys)))"

definition calculate_mean ::
  "('n, 'f, 'x) arithmetic \<Rightarrow> 'n list \<Rightarrow> 'x exception + 'f" where
  "calculate_mean ar numbers =
     (if numbers = [] then Inl (Raised (ValueError (Text ''The list is empty'')))
      else
        (case py_sum ar numbers of
           Inl x \<Rightarrow> Inl (Library x)
         | Inr s \<Rightarrow>
             (case py_truediv ar s (length numbers) of
                Inl x \<Rightarrow> Inl (Library x)
              | Inr mean \<Rightarrow> Inr mean)))"

text \<open>
  \<open>normalize\<close> of the notebook is \<open>normalize_data\<close> here, the shorter name being a
  constant of HOL.
\<close>

definition normalize_data ::
  "('n, 'f, 'x) arithmetic \<Rightarrow> 'n list \<Rightarrow> 'x exception + 'f list" where
  "normalize_data ar data' =
     (if data' = [] then Inl (Raised (ValueError (Text ''Data is empty'')))
      else
        (case np_mean ar data' of
           Inl x \<Rightarrow> Inl (Library x)
         | Inr mean \<Rightarrow>
             (case np_std ar data' of
                Inl x \<Rightarrow> Inl (Library x)
              | Inr std \<Rightarrow>
                  (case comprehension
                          (\<lambda>x. case np_subtract ar x mean of
                                 Inl e \<Rightarrow> Inl e
                               | Inr d \<Rightarrow> np_true_divide ar d std) data' of
                     Inl x \<Rightarrow> Inl (Library x)
                   | Inr result \<Rightarrow> Inr result))))"

definition standardize ::
  "('n, 'f, 'x) arithmetic \<Rightarrow> 'n list \<Rightarrow> 'x exception + 'f list" where
  "standardize ar numbers =
     (if numbers = [] then Inl (Raised (ValueError (Text ''The list is empty'')))
      else
        (case np_mean ar numbers of
           Inl x \<Rightarrow> Inl (Library x)
         | Inr mean \<Rightarrow>
             (case np_std ar numbers of
                Inl x \<Rightarrow> Inl (Library x)
              | Inr std_dev \<Rightarrow>
                  (case comprehension
                          (\<lambda>x. case np_subtract ar x mean of
                                 Inl e \<Rightarrow> Inl e
                               | Inr d \<Rightarrow> np_true_divide ar d std_dev) numbers of
                     Inl x \<Rightarrow> Inl (Library x)
                   | Inr result \<Rightarrow> Inr result))))"

section \<open>The folder script (project folder structure notebook)\<close>

text \<open>
  A path is the list of its components, read from the directory the script starts in
  (the path \<open>[]\<close>), so that \<open>os.path.join base_path folder\<close> is the concatenation of
  two lists. A file system maps the paths that exist to a directory or to a regular file
  with its content. Permissions, links, special files and the limits of the operating
  system are not modelled.
\<close>

type_synonym path = "string list"

datatype node = Dir | File string

type_synonym filesystem = "path \<Rightarrow> node option"

text \<open>
  In a file system every entry lies in a directory, and the starting directory is one.
\<close>

definition well_formed :: "filesystem \<Rightarrow> bool" where
  "well_formed fs \<longleftrightarrow>
     fs [] = Some Dir \<and> (\<forall>p. p \<noteq> [] \<longrightarrow> fs p \<noteq> None \<longrightarrow> fs (butlast p) = Some Dir)"

definition os_path_join :: "path \<Rightarrow> path \<Rightarrow> path" where
  "os_path_join base rel = base @ rel"

text \<open>
  The operating system resolves a path one component at a time: a component that is
  missing gives \<open>FileNotFoundError\<close>, one that is not a directory but has components
  after it gives \<open>NotADirectoryError\<close>. \<open>resolve fs cur cs\<close> walks the components
  \<open>cs\<close> from the directory \<open>cur\<close>.
\<close>

fun resolve :: "filesystem \<Rightarrow> path \<Rightarrow> string list \<Rightarrow> error option" where
  "resolve fs cur [] = None"
| "resolve fs cur (c # cs) =
     (case fs (cur @ [c]) of
        None \<Rightarrow> Some FileNotFoundError
      | Some (File _) \<Rightarrow> Some NotADirectoryError
      | Some Dir \<Rightarrow> resolve fs (cur @ [c]) cs)"

definition path_exists :: "filesystem \<Rightarrow> path \<Rightarrow> bool" where
  "path_exists fs p \<longleftrightarrow> p = [] \<or> (resolve fs [] (butlast p) = None \<and> fs p \<noteq> None)"

definition path_isdir :: "filesystem \<Rightarrow> path \<Rightarrow> bool" where
  "path_isdir fs p \<longleftrightarrow> p = [] \<or> (resolve fs [] (butlast p) = None \<and> fs p = Some Dir)"

text \<open>
  \<open>os.mkdir\<close>: the parent must resolve to a directory and the name must be free. The
  empty path is the starting directory, which exists.
\<close>

definition os_mkdir :: "path \<Rightarrow> filesystem \<Rightarrow> error + filesystem" where
  "os_mkdir p fs =
     (if p = [] then Inl FileExistsError
      else case resolve fs [] (butlast p) of
        Some e \<Rightarrow> Inl e
      | None \<Rightarrow> (if fs p \<noteq> None then Inl FileExistsError else Inr (fs(p \<mapsto> Dir))))"

text \<open>
  \<open>os.makedirs\<close> of the standard library: when the head of the path does not exist it
  is made first, by a recursive call whose \<open>FileExistsError\<close> is ignored; then the
  directory itself is made, and an \<open>OSError\<close> of that \<open>mkdir\<close> is passed on unless
  \<open>exist_ok\<close> is set and the path is a directory. A call that raises returns the error
  with the file system as it is then. Paths here have no \<open>.\<close> component, so the
  early return of \<open>os.makedirs\<close> for a tail \<open>.\<close> has no counterpart.
\<close>

function makedirs :: "path \<Rightarrow> bool \<Rightarrow> filesystem \<Rightarrow> error option \<times> filesystem" where
  "makedirs name exist_ok fs =
     (let head = butlast name;
          (r, fs1) =
            (if head \<noteq> [] \<and> name \<noteq> [] \<and> \<not> path_exists fs head then
               (case makedirs head exist_ok fs of
                  (Some FileExistsError, fs') \<Rightarrow> (None, fs')
                | other \<Rightarrow> other)
             else (None, fs))
      in case r of
           Some e \<Rightarrow> (Some e, fs1)
         | None \<Rightarrow>
             (case os_mkdir name fs1 of
                Inr fs2 \<Rightarrow> (None, fs2)
              | Inl e \<Rightarrow>
                  if \<not> exist_ok \<or> \<not> path_isdir fs1 name then (Some e, fs1) else (None, fs1)))"
  by pat_completeness auto
termination
  by (relation "measure (\<lambda>(name, exist_ok, fs). length name)") auto

declare makedirs.simps [simp del]

text \<open>
  \<open>open(path, 'a').close()\<close>: an existing regular file is opened for appending and
  closed with nothing written; a missing one is created empty; a directory cannot be
  opened for writing.
\<close>

definition open_append_close :: "path \<Rightarrow> filesystem \<Rightarrow> error + filesystem" where
  "open_append_close p fs =
     (if p = [] then Inl IsADirectoryError
      else case resolve fs [] (butlast p) of
        Some e \<Rightarrow> Inl e
      | None \<Rightarrow>
          (case fs p of
             Some Dir \<Rightarrow> Inl IsADirectoryError
           | Some (File content) \<Rightarrow> Inr fs
           | None \<Rightarrow> Inr (fs(p \<mapsto> File []))))"

definition folders :: "path list" where
  "folders =
     [[''data'', ''external''], [''data'', ''interim''], [''data'', ''processed''],
      [''data'', ''raw''],
      [''envs''],
      [''docs''],
      [''models''],
      [''notebooks''],
      [''references''],
      [''reports'', ''figures''],
      [''src''],
      [''src'', ''modeling'']]"

definition files :: "path list" where
  "files =
     [[''LICENSE''], [''Makefile''], [''README.md''],
      [''envs'', ''.dev_env''], [''envs'', ''.prod_env''], [''envs'', ''.dev2_env''],
      [''envs'', ''dev_req.txt''], [''envs'', ''prod_req.txt''], [''envs'', ''dev2_req.txt''],
      [''src'', ''__init__.py''], [''src'', ''config.py''], [''src'', ''dataset.py''],
      [''src'', ''features.py''], [''src'', ''modeling'', ''__init__.py''],
      [''src'', ''modeling'', ''predict.py''], [''src'', ''modeling'', ''train.py''],
      [''src'', ''plots.py'']]"

text \<open>The two loops of the script; each stops at the first call that raises.\<close>

fun makedirs_each :: "path \<Rightarrow> path list \<Rightarrow> filesystem \<Rightarrow> error option \<times> filesystem" where
  "makedirs_each base_path [] fs = (None, fs)"
| "makedirs_each base_path (folder # rest) fs =
     (case makedirs (os_path_join base_path folder) True fs of
        (Some e, fs') \<Rightarrow> (Some e, fs')
      | (None, fs') \<Rightarrow> makedirs_each base_path rest fs')"

fun open_each :: "path \<Rightarrow> path list \<Rightarrow> filesystem \<Rightarrow> error option \<times> filesystem" where
  "open_each base_path [] fs = (None, fs)"
| "open_each base_path (file # rest) fs =
     (case open_append_close (os_path_join base_path file) fs of
        Inl e \<Rightarrow> (Some e, fs)
      | Inr fs' \<Rightarrow> open_each base_path rest fs')"

definition create_folder_structure :: "path \<Rightarrow> filesystem \<Rightarrow> error option \<times> filesystem" where
  "create_folder_structure base_path fs =
     (case makedirs_each base_path folders fs of
        (Some e, fs') \<Rightarrow> (Some e, fs')
      | (None, fs') \<Rightarrow> open_each base_path files fs')"

text \<open>
  Two notions for the proofs. A path is blocked when it, or a path leading to it, is a
  regular file. \<open>add_dirs p fs\<close> is \<open>fs\<close> with a directory at every path leading to
  \<open>p\<close>, and at \<open>p\<close>, where there was nothing.
\<close>

definition blocked :: "filesystem \<Rightarrow> path \<Rightarrow> bool" where
  "blocked fs p \<longleftrightarrow> (\<exists>q content. prefix q p \<and> fs q = Some (File content))"

definition add_dirs :: "path \<Rightarrow> filesystem \<Rightarrow> filesystem" where
  "add_dirs p fs = (\<lambda>q. if prefix q p \<and> fs q = None then Some Dir else fs q)"

text \<open>
  Example states: an empty starting directory, a project that has a README, and a
  starting directory in which \<open>project\<close> is a regular file.
\<close>

definition empty_fs :: filesystem where
  "empty_fs = Map.empty([] \<mapsto> Dir)"

definition occupied_fs :: filesystem where
  "occupied_fs = Map.empty([] \<mapsto> Dir, [''project''] \<mapsto> File ''x'')"

definition readme_fs :: filesystem where
  "readme_fs =
     Map.empty([] \<mapsto> Dir, [''project''] \<mapsto> Dir,
               [''project'', ''README.md''] \<mapsto> File ''notes'')"

section \<open>Properties of the record handler\<close>

text \<open>
  C2. For every candidate record, \<open>validate_record\<close> returns true if and only if the
  number of fields of the record equals the number of declared columns, the length of
  \<open>DataHandler.default_columns\<close>.
\<close>

theorem C2_validate_record_iff:
  "validate_record cls record \<longleftrightarrow> length record = length (default_columns cls)"
  by (simp add: validate_record_def)

text \<open>
  C3. For every handler and every invalid record (its field count differs from the declared
  column count), \<open>add_record\<close> raises the handler's \<open>ValueError\<close> and the handler, its
  table included, is exactly what it was before the call.
\<close>

theorem C3_add_record_invalid:
  assumes "length record \<noteq> length (default_columns cls)"
  shows "add_record cls record self =
           (Some (ValueError (Text ''Record does not have the correct number of columns'')), self)"
  using assms by (simp add: add_record_def validate_record_def)

theorem C3_add_record_invalid_witness:
  "length [''Bob'', ''HR''] \<noteq> length (default_columns DataHandler_class0) \<and>
   add_record DataHandler_class0 [''Bob'', ''HR'']
       \<lparr>data = \<lparr>columns = [''name'', ''age'', ''salary''], rows = [[''Alice'', ''30'', ''70000'']]\<rparr>\<rparr> =
     (Some (ValueError (Text ''Record does not have the correct number of columns'')),
      \<lparr>data = \<lparr>columns = [''name'', ''age'', ''salary''], rows = [[''Alice'', ''30'', ''70000'']]\<rparr>\<rparr>)"
proof -
  have h: "length [''Bob'', ''HR''] \<noteq> length (default_columns DataHandler_class0)"
    by (simp add: DataHandler_class0_def)
  show ?thesis
    using h C3_add_record_invalid [OF h] by simp
qed

text \<open>
  C4. For every handler whose table has as many columns as \<open>default_columns\<close>, and every
  valid record, \<open>add_record\<close> returns normally; afterwards the table has the same columns,
  its former rows followed by the record, and so exactly one row more.
\<close>

theorem C4_add_record_valid:
  assumes "length (columns (data self)) = length (default_columns cls)"
    and "length record = length (default_columns cls)"
  shows "fst (add_record cls record self) = None \<and>
         rows (data (snd (add_record cls record self))) = rows (data self) @ [record] \<and>
         length (rows (data (snd (add_record cls record self)))) = length (rows (data self)) + 1 \<and>
         columns (data (snd (add_record cls record self))) = columns (data self)"
  using assms
  by (simp add: add_record_def validate_record_def pd_Series_def DataFrame_append_def)

theorem C4_add_record_valid_witness:
  "fst (add_record DataHandler_class0 [''Alice'', ''30'', ''70000'']
          \<lparr>data = \<lparr>columns = default_columns DataHandler_class0, rows = []\<rparr>\<rparr>) = None \<and>
   rows (data (snd (add_record DataHandler_class0 [''Alice'', ''30'', ''70000'']
          \<lparr>data = \<lparr>columns = default_columns DataHandler_class0, rows = []\<rparr>\<rparr>))) =
     [[''Alice'', ''30'', ''70000'']]"
proof -
  let ?h = "\<lparr>data = \<lparr>columns = default_columns DataHandler_class0, rows = []\<rparr>\<rparr>
              :: string DataHandler"
  have c: "length (columns (data ?h)) = length (default_columns DataHandler_class0)"
    by simp
  have r: "length [''Alice'', ''30'', ''70000''] = length (default_columns DataHandler_class0)"
    by (simp add: DataHandler_class0_def)
  show ?thesis
    using C4_add_record_valid [OF c r] by simp
qed

text \<open>
  The claim as first stated, for every handler, fails: a handler built on a table of two
  columns rejects a record of three fields that \<open>validate_record\<close> accepts, and gains no
  row.
\<close>

theorem C4_add_record_valid_counterexample:
  "validate_record DataHandler_class0 [''Alice'', ''30'', ''70000''] \<and>
   add_record DataHandler_class0 [''Alice'', ''30'', ''70000'']
       \<lparr>data = \<lparr>columns = [''name'', ''age''], rows = []\<rparr>\<rparr> =
     (Some (ValueError (LengthMismatch 3 2)),
      \<lparr>data = \<lparr>columns = [''name'', ''age''], rows = []\<rparr>\<rparr>)"
  by (simp add: add_record_def validate_record_def pd_Series_def DataHandler_class0_def)

text \<open>
  C7. A record that \<open>validate_record\<close> accepts can still fail to be appended: whenever the
  handler's table has a number of columns other than the length of \<open>default_columns\<close>, a
  record of that length passes the validity check, building the new row raises the
  \<open>ValueError\<close> of pandas (the record's length does not match the table's columns), and
  the handler is unchanged, so no row is added.
\<close>

theorem C7_valid_record_not_appended:
  assumes "length (columns (data self)) \<noteq> length (default_columns cls)"
    and "length record = length (default_columns cls)"
  shows "validate_record cls record \<and>
         add_record cls record self =
           (Some (ValueError (LengthMismatch (length record) (length (columns (data self))))), self)"
  using assms by (simp add: add_record_def validate_record_def pd_Series_def)

text \<open>
  Such a handler state exists: the notebook's own example builds the table from the three
  default columns and then declares a fourth column for the class.
\<close>

theorem C7_valid_record_not_appended_witness:
  "validate_record
      (set_default_columns [''name'', ''age'', ''salary'', ''department''] DataHandler_class0)
      [''Bob'', ''25'', ''60000'', ''HR''] \<and>
   add_record
      (set_default_columns [''name'', ''age'', ''salary'', ''department''] DataHandler_class0)
      [''Bob'', ''25'', ''60000'', ''HR'']
      \<lparr>data = \<lparr>columns = default_columns DataHandler_class0,
                rows = [[''Alice'', ''30'', ''70000'']]\<rparr>\<rparr> =
     (Some (ValueError (LengthMismatch 4 3)),
      \<lparr>data = \<lparr>columns = default_columns DataHandler_class0,
                rows = [[''Alice'', ''30'', ''70000'']]\<rparr>\<rparr>)"
proof -
  let ?cls = "set_default_columns [''name'', ''age'', ''salary'', ''department''] DataHandler_class0"
  let ?h = "\<lparr>data = \<lparr>columns = default_columns DataHandler_class0,
                         rows = [[''Alice'', ''30'', ''70000'']]\<rparr>\<rparr>"
  have c: "length (columns (data ?h)) \<noteq> length (default_columns ?cls)"
    by (simp add: set_default_columns_def DataHandler_class0_def)
  have r: "length [''Bob'', ''25'', ''60000'', ''HR''] = length (default_columns ?cls)"
    by (simp add: set_default_columns_def)
  show ?thesis
    using C7_valid_record_not_appended [OF c r] by (simp add: DataHandler_class0_def)
qed

text \<open>
  C8. The declared column count is shared, mutable class state. After
  \<open>set_default_columns cols\<close>, \<open>validate_record\<close> returns whether the record is as long
  as \<open>cols\<close>, whatever the columns were before; every handler's \<open>add_record\<close> raises the
  invalid-record error exactly for the records of another length; and a record that was
  valid before the call (three fields against the three initial columns) is invalid after
  a call that declares four columns.
\<close>

theorem C8_default_columns_shared:
  "validate_record (set_default_columns cols cls) record = (length record = length cols) \<and>
   (fst (add_record (set_default_columns cols cls) record self) =
      Some (ValueError (Text ''Record does not have the correct number of columns'')))
     = (length record \<noteq> length cols) \<and>
   validate_record DataHandler_class0 [a, b, c] \<and>
   \<not> validate_record
        (set_default_columns [''name'', ''age'', ''salary'', ''department''] DataHandler_class0)
        [a, b, c]"
  by (simp add: add_record_def validate_record_def set_default_columns_def pd_Series_def
      DataHandler_class0_def)

section \<open>Properties of the statistics functions\<close>

text \<open>
  C5. \<open>calculate_mean\<close>, \<open>normalize\<close> and \<open>standardize\<close> each raise their
  \<open>ValueError\<close>, with a message that names the cause, exactly when the input sequence
  is empty: the empty input is the only input on which they raise this error, whatever
  the arithmetic does on the other inputs.
\<close>

theorem C5_raises_iff_empty:
  "(calculate_mean ar xs = Inl (Raised (ValueError (Text ''The list is empty'')))) = (xs = []) \<and>
   (normalize_data ar xs = Inl (Raised (ValueError (Text ''Data is empty'')))) = (xs = []) \<and>
   (standardize ar xs = Inl (Raised (ValueError (Text ''The list is empty'')))) = (xs = [])"
  by (simp add: calculate_mean_def normalize_data_def standardize_def split: sum.splits)

section \<open>Properties of the folder script\<close>

lemma wf_root: "well_formed fs \<Longrightarrow> fs [] = Some Dir"
  by (simp add: well_formed_def)

lemma wf_parent: "well_formed fs \<Longrightarrow> fs (xs @ [x]) \<noteq> None \<Longrightarrow> fs xs = Some Dir"
  unfolding well_formed_def by (metis butlast_snoc snoc_eq_iff_butlast)

lemma wf_prefix:
  "well_formed fs \<Longrightarrow> fs p \<noteq> None \<Longrightarrow> strict_prefix q p \<Longrightarrow> fs q = Some Dir"
proof (induction p rule: rev_induct)
  case Nil
  then show ?case by simp
next
  case (snoc x xs)
  have xs: "fs xs = Some Dir" using snoc.prems(1,2) by (rule wf_parent)
  from snoc.prems(3) have "prefix q xs" by (simp add: strict_prefix_def prefix_snoc) blast
  then consider "q = xs" | "strict_prefix q xs" by (auto simp: strict_prefix_def)
  then show ?case
  proof cases
    case 1 then show ?thesis using xs by simp
  next
    case 2 then show ?thesis using snoc.IH snoc.prems(1) xs by simp
  qed
qed

lemma wf_prefix_exists:
  "well_formed fs \<Longrightarrow> fs p \<noteq> None \<Longrightarrow> prefix q p \<Longrightarrow> fs q \<noteq> None"
  using wf_prefix [of fs p q] by (cases "q = p") (auto simp: strict_prefix_def)

lemma wf_append: "well_formed fs \<Longrightarrow> fs (p @ q) \<noteq> None \<Longrightarrow> q \<noteq> [] \<Longrightarrow> fs p = Some Dir"
  by (rule wf_prefix [of fs "p @ q"]) (auto simp: strict_prefix_def)

lemma resolve_error:
  "resolve fs cur cs = Some e \<Longrightarrow> e = FileNotFoundError \<or> e = NotADirectoryError"
  by (induction cs arbitrary: cur) (auto split: option.splits node.splits)

lemma resolve_wf_from:
  "well_formed fs \<Longrightarrow> fs cur = Some Dir \<Longrightarrow>
     (resolve fs cur cs = None) = (fs (cur @ cs) = Some Dir)"
proof (induction cs arbitrary: cur)
  case Nil
  then show ?case by simp
next
  case (Cons c cs)
  show ?case
  proof (cases "fs (cur @ [c])")
    case None
    have "fs (cur @ c # cs) = None"
    proof (rule ccontr)
      assume "fs (cur @ c # cs) \<noteq> None"
      then have "fs ((cur @ [c]) @ cs) \<noteq> None" by simp
      then have "fs (cur @ [c]) \<noteq> None"
        using Cons.prems(1) wf_prefix_exists [of fs "(cur @ [c]) @ cs" "cur @ [c]"] by simp
      then show False using None by simp
    qed
    then show ?thesis using None by simp
  next
    case (Some n)
    show ?thesis
    proof (cases n)
      case Dir
      then show ?thesis using Some Cons.IH [of "cur @ [c]"] Cons.prems(1) by simp
    next
      case (File content)
      have "fs (cur @ c # cs) \<noteq> Some Dir"
      proof (cases "cs = []")
        case True then show ?thesis using Some File by simp
      next
        case False
        show ?thesis
        proof
          assume "fs (cur @ c # cs) = Some Dir"
          then have "fs ((cur @ [c]) @ cs) \<noteq> None" by simp
          then have "fs (cur @ [c]) = Some Dir"
            using wf_append [OF Cons.prems(1) _ False] by blast
          then show False using Some File by simp
        qed
      qed
      then show ?thesis using Some File by simp
    qed
  qed
qed

lemma resolve_wf: "well_formed fs \<Longrightarrow> (resolve fs [] p = None) = (fs p = Some Dir)"
  using resolve_wf_from [of fs "[]" p] by (simp add: wf_root)

lemma path_exists_wf: "well_formed fs \<Longrightarrow> path_exists fs p = (fs p \<noteq> None)"
proof (cases p rule: rev_cases)
  case Nil
  assume "well_formed fs"
  then show ?thesis using Nil by (simp add: path_exists_def wf_root)
next
  case (snoc xs x)
  assume wf: "well_formed fs"
  show ?thesis using snoc wf_parent [OF wf, of xs x]
    by (auto simp: path_exists_def resolve_wf [OF wf])
qed

lemma path_isdir_wf: "well_formed fs \<Longrightarrow> path_isdir fs p = (fs p = Some Dir)"
proof (cases p rule: rev_cases)
  case Nil
  assume "well_formed fs"
  then show ?thesis using Nil by (simp add: path_isdir_def wf_root)
next
  case (snoc xs x)
  assume wf: "well_formed fs"
  show ?thesis using snoc wf_parent [OF wf, of xs x]
    by (auto simp: path_isdir_def resolve_wf [OF wf])
qed


lemma os_mkdir_exists: "well_formed fs \<Longrightarrow> fs p \<noteq> None \<Longrightarrow> os_mkdir p fs = Inl FileExistsError"
proof (cases p rule: rev_cases)
  case Nil
  then show ?thesis by (simp add: os_mkdir_def)
next
  case (snoc xs x)
  assume wf: "well_formed fs" and ex: "fs p \<noteq> None"
  have "fs xs = Some Dir" using wf ex snoc wf_parent by blast
  then have "resolve fs [] xs = None" by (simp add: resolve_wf [OF wf])
  then show ?thesis using snoc ex by (auto simp: os_mkdir_def)
qed

lemma os_mkdir_new:
  "well_formed fs \<Longrightarrow> fs (xs @ [x]) = None \<Longrightarrow> fs xs = Some Dir \<Longrightarrow>
     os_mkdir (xs @ [x]) fs = Inr (fs(xs @ [x] \<mapsto> Dir))"
  using resolve_wf [of fs xs] by (simp add: os_mkdir_def)

lemma os_mkdir_no_parent:
  assumes "well_formed fs" and "fs xs \<noteq> Some Dir"
  shows "\<exists>e. os_mkdir (xs @ [x]) fs = Inl e \<and> e \<noteq> FileExistsError"
proof -
  have "resolve fs [] xs \<noteq> None" using assms by (simp add: resolve_wf)
  then obtain e where e: "resolve fs [] xs = Some e" by blast
  then have "e \<noteq> FileExistsError" using resolve_error by fastforce
  then show ?thesis using e by (simp add: os_mkdir_def)
qed

lemma blocked_Nil: "well_formed fs \<Longrightarrow> \<not> blocked fs []"
  by (simp add: blocked_def wf_root)

lemma blocked_snoc:
  "blocked fs (xs @ [x]) \<longleftrightarrow> blocked fs xs \<or> (\<exists>content. fs (xs @ [x]) = Some (File content))"
  by (auto simp: blocked_def prefix_snoc)

lemma not_blocked_Dir: "well_formed fs \<Longrightarrow> fs p = Some Dir \<Longrightarrow> \<not> blocked fs p"
  unfolding blocked_def
  by (metis node.distinct(1) option.distinct(1) option.inject prefix_order.le_less wf_prefix)

lemma add_dirs_exists: "well_formed fs \<Longrightarrow> fs p \<noteq> None \<Longrightarrow> add_dirs p fs = fs"
  by (auto simp: add_dirs_def fun_eq_iff dest: wf_prefix_exists)

lemma add_dirs_snoc:
  "add_dirs (xs @ [x]) fs =
     (if fs (xs @ [x]) = None then (add_dirs xs fs)(xs @ [x] \<mapsto> Dir) else add_dirs xs fs)"
  by (auto simp: add_dirs_def fun_eq_iff prefix_snoc)

lemma add_dirs_le: "fs \<subseteq>\<^sub>m add_dirs p fs"
  by (auto simp: map_le_def add_dirs_def)

lemma add_dirs_target: "\<not> blocked fs p \<Longrightarrow> add_dirs p fs p = Some Dir"
  unfolding blocked_def add_dirs_def
  by (cases "fs p") (auto, metis node.exhaust prefix_order.order_refl)

lemma blocked_add_dirs: "blocked (add_dirs p fs) q = blocked fs q"
  by (auto simp: blocked_def add_dirs_def split: if_splits)

lemma wf_add_dirs:
  assumes wf: "well_formed fs" and free: "\<not> blocked fs p"
  shows "well_formed (add_dirs p fs)"
  using free
proof (induction p rule: rev_induct)
  case Nil
  then show ?case using wf by (simp add: add_dirs_exists wf_root)
next
  case (snoc x xs)
  have free_xs: "\<not> blocked fs xs" using snoc.prems by (simp add: blocked_snoc)
  have wf_xs: "well_formed (add_dirs xs fs)" using snoc.IH free_xs by simp
  show ?case
  proof (cases "fs (xs @ [x]) = None")
    case False
    then show ?thesis using wf_xs by (auto simp: add_dirs_snoc)
  next
    case True
    have dir: "add_dirs xs fs xs = Some Dir" using free_xs by (rule add_dirs_target)
    have new: "add_dirs xs fs (xs @ [x]) = None" using True by (simp add: add_dirs_def)
    have "well_formed ((add_dirs xs fs)(xs @ [x] \<mapsto> Dir))"
      unfolding well_formed_def
    proof (intro conjI allI impI)
      show "((add_dirs xs fs)(xs @ [x] \<mapsto> Dir)) [] = Some Dir"
        using wf_xs by (simp add: well_formed_def)
    next
      fix p assume p: "p \<noteq> []" and ex: "((add_dirs xs fs)(xs @ [x] \<mapsto> Dir)) p \<noteq> None"
      show "((add_dirs xs fs)(xs @ [x] \<mapsto> Dir)) (butlast p) = Some Dir"
      proof (cases "p = xs @ [x]")
        case True
        then show ?thesis using dir by simp
      next
        case False
        then have ex': "add_dirs xs fs p \<noteq> None" using ex by simp
        then have par: "add_dirs xs fs (butlast p) = Some Dir"
          using wf_xs p by (simp add: well_formed_def)
        have "butlast p \<noteq> xs @ [x]" using par new by auto
        then show ?thesis using par by simp
      qed
    qed
    then show ?thesis by (simp only: add_dirs_snoc True simp_thms if_True)
  qed
qed


lemma wf_child_None: "well_formed fs \<Longrightarrow> fs xs \<noteq> Some Dir \<Longrightarrow> fs (xs @ [x]) = None"
  using wf_parent by blast

lemma makedirs_Nil: "makedirs [] True fs = (None, fs)"
  by (subst makedirs.simps) (simp add: os_mkdir_def path_isdir_def)

lemma makedirs_free:
  assumes wf: "well_formed fs"
  shows "\<not> blocked fs p \<Longrightarrow> makedirs p True fs = (None, add_dirs p fs)"
proof (induction p rule: rev_induct)
  case Nil
  then show ?case using wf by (simp add: makedirs_Nil add_dirs_exists wf_root)
next
  case (snoc x xs)
  let ?p = "xs @ [x]"
  have free_xs: "\<not> blocked fs xs" and nofile: "\<And>c. fs ?p \<noteq> Some (File c)"
    using snoc.prems by (auto simp: blocked_snoc)
  show ?case
  proof (cases "xs \<noteq> [] \<and> fs xs = None")
    case True
    have rec: "makedirs xs True fs = (None, add_dirs xs fs)" using snoc.IH free_xs by simp
    have wf1: "well_formed (add_dirs xs fs)" using wf free_xs by (rule wf_add_dirs)
    have none: "fs ?p = None" using True by (simp add: wf_child_None [OF wf])
    then have new: "add_dirs xs fs ?p = None" by (simp add: add_dirs_def)
    have dir: "add_dirs xs fs xs = Some Dir" using free_xs by (rule add_dirs_target)
    have mk: "os_mkdir ?p (add_dirs xs fs) = Inr ((add_dirs xs fs)(?p \<mapsto> Dir))"
      using wf1 new dir by (rule os_mkdir_new)
    have "makedirs ?p True fs = (None, (add_dirs xs fs)(?p \<mapsto> Dir))"
      using True by (subst makedirs.simps) (simp add: path_exists_wf [OF wf] rec mk)
    then show ?thesis using none by (simp only: add_dirs_snoc simp_thms if_True)
  next
    case False
    then have dir: "fs xs = Some Dir"
      using free_xs wf_root [OF wf] unfolding blocked_def
      by (cases "fs xs") (auto, metis node.exhaust prefix_order.order_refl)
    have same: "add_dirs xs fs = fs" using wf dir by (simp add: add_dirs_exists)
    have norec: "\<not> (xs \<noteq> [] \<and> ?p \<noteq> [] \<and> \<not> path_exists fs xs)"
      using dir by (simp add: path_exists_wf [OF wf])
    show ?thesis
    proof (cases "fs ?p")
      case None
      have mk: "os_mkdir ?p fs = Inr (fs(?p \<mapsto> Dir))" using wf None dir by (rule os_mkdir_new)
      have "makedirs ?p True fs = (None, fs(?p \<mapsto> Dir))"
        using norec by (subst makedirs.simps) (auto simp: mk)
      then show ?thesis using None same by (simp only: add_dirs_snoc simp_thms if_True)
    next
      case (Some n)
      then have isdir: "fs ?p = Some Dir" using nofile by (cases n) auto
      have mk: "os_mkdir ?p fs = Inl FileExistsError" using wf Some by (simp add: os_mkdir_exists)
      have "makedirs ?p True fs = (None, fs)"
        using norec by (subst makedirs.simps) (auto simp: mk path_isdir_wf [OF wf] isdir)
      then show ?thesis using Some same by (simp add: add_dirs_snoc)
    qed
  qed
qed

lemma makedirs_blocked:
  assumes wf: "well_formed fs"
  shows "blocked fs p \<Longrightarrow>
           \<exists>e. makedirs p True fs = (Some e, fs) \<and> (fs p = None \<longrightarrow> e \<noteq> FileExistsError)"
proof (induction p rule: rev_induct)
  case Nil
  then show ?case using wf by (simp add: blocked_Nil)
next
  case (snoc x xs)
  let ?p = "xs @ [x]"
  show ?case
  proof (cases "xs \<noteq> [] \<and> fs xs = None")
    case True
    have none: "fs ?p = None" using True by (simp add: wf_child_None [OF wf])
    then have "blocked fs xs" using snoc.prems by (simp add: blocked_snoc)
    then obtain e where e: "makedirs xs True fs = (Some e, fs)" "e \<noteq> FileExistsError"
      using snoc.IH True by auto
    have "makedirs ?p True fs = (Some e, fs)"
      using True e by (subst makedirs.simps) (cases e; simp add: path_exists_wf [OF wf])
    then show ?thesis using e(2) by simp
  next
    case False
    then have ex: "fs xs \<noteq> None" using wf_root [OF wf] by auto
    have norec: "\<not> (xs \<noteq> [] \<and> ?p \<noteq> [] \<and> \<not> path_exists fs xs)"
      using ex by (simp add: path_exists_wf [OF wf])
    show ?thesis
    proof (cases "fs xs = Some Dir")
      case True
      then have "\<not> blocked fs xs" using wf by (simp add: not_blocked_Dir)
      then obtain c where c: "fs ?p = Some (File c)"
        using snoc.prems by (auto simp: blocked_snoc)
      have mk: "os_mkdir ?p fs = Inl FileExistsError" using wf c by (simp add: os_mkdir_exists)
      have "makedirs ?p True fs = (Some FileExistsError, fs)"
        using norec by (subst makedirs.simps) (auto simp: mk path_isdir_wf [OF wf] c)
      then show ?thesis using c by simp
    next
      case False
      then obtain e where e: "os_mkdir ?p fs = Inl e" "e \<noteq> FileExistsError"
        using os_mkdir_no_parent [OF wf] by blast
      have none: "fs ?p = None" using False by (simp add: wf_child_None [OF wf])
      have "makedirs ?p True fs = (Some e, fs)"
        using norec by (subst makedirs.simps) (auto simp: e path_isdir_wf [OF wf] none)
      then show ?thesis using e(2) by simp
    qed
  qed
qed


lemma makedirs_cases:
  assumes "well_formed fs"
  shows "(\<exists>e. makedirs p True fs = (Some e, fs)) \<or>
         (makedirs p True fs = (None, add_dirs p fs) \<and> \<not> blocked fs p)"
  using makedirs_blocked [OF assms, of p] makedirs_free [OF assms, of p] by blast

lemma makedirs_noop: "well_formed fs \<Longrightarrow> fs p = Some Dir \<Longrightarrow> makedirs p True fs = (None, fs)"
  by (simp add: makedirs_free not_blocked_Dir add_dirs_exists)

lemma wf_add_file:
  assumes wf: "well_formed fs" and dir: "fs xs = Some Dir" and new: "fs (xs @ [x]) = None"
  shows "well_formed (fs(xs @ [x] \<mapsto> File content))"
  unfolding well_formed_def
proof (intro conjI allI impI)
  show "(fs(xs @ [x] \<mapsto> File content)) [] = Some Dir"
    using wf by (simp add: well_formed_def)
next
  fix p assume p: "p \<noteq> []" and ex: "(fs(xs @ [x] \<mapsto> File content)) p \<noteq> None"
  show "(fs(xs @ [x] \<mapsto> File content)) (butlast p) = Some Dir"
  proof (cases "p = xs @ [x]")
    case True
    then show ?thesis using dir by simp
  next
    case False
    then have "fs p \<noteq> None" using ex by simp
    then have par: "fs (butlast p) = Some Dir" using wf p by (simp add: well_formed_def)
    then have "butlast p \<noteq> xs @ [x]" using new by auto
    then show ?thesis using par by simp
  qed
qed

lemma open_existing:
  assumes wf: "well_formed fs" and reg: "fs p = Some (File content)"
  shows "open_append_close p fs = Inr fs"
proof (cases p rule: rev_cases)
  case Nil
  then show ?thesis using wf reg by (simp add: well_formed_def)
next
  case (snoc xs x)
  then have "fs xs = Some Dir" using wf reg wf_parent by blast
  then have "resolve fs [] xs = None" by (simp add: resolve_wf [OF wf])
  then show ?thesis using snoc reg by (simp add: open_append_close_def)
qed

lemma open_new:
  assumes wf: "well_formed fs" and dir: "fs xs = Some Dir" and new: "fs (xs @ [x]) = None"
  shows "open_append_close (xs @ [x]) fs = Inr (fs(xs @ [x] \<mapsto> File []))"
proof -
  have "resolve fs [] xs = None" using dir by (simp add: resolve_wf [OF wf])
  then show ?thesis using new by (simp add: open_append_close_def)
qed

lemma open_result:
  assumes wf: "well_formed fs" and ok: "open_append_close p fs = Inr fs'"
  shows "well_formed fs' \<and> fs \<subseteq>\<^sub>m fs' \<and> (\<exists>content. fs' p = Some (File content))"
proof (cases p rule: rev_cases)
  case Nil
  then show ?thesis using ok by (simp add: open_append_close_def)
next
  case (snoc xs x)
  have res: "resolve fs [] xs = None"
    using ok snoc by (cases "resolve fs [] xs") (auto simp: open_append_close_def)
  then have dir: "fs xs = Some Dir" by (simp add: resolve_wf [OF wf])
  show ?thesis
  proof (cases "fs p")
    case None
    then have "fs' = fs(p \<mapsto> File [])"
      using ok snoc res by (simp add: open_append_close_def)
    then show ?thesis
      using wf_add_file [OF wf dir, of x "[]"] None snoc by (auto simp: map_le_def)
  next
    case (Some n)
    then show ?thesis
      using ok snoc res wf by (cases n) (auto simp: open_append_close_def)
  qed
qed

lemma makedirs_each_rerun:
  "well_formed fs \<Longrightarrow> makedirs_each base ds fs = (r, fs') \<Longrightarrow>
     well_formed fs' \<and> fs \<subseteq>\<^sub>m fs' \<and> makedirs_each base ds fs' = (r, fs') \<and>
     (r = None \<longrightarrow> (\<forall>d\<in>set ds. fs' (os_path_join base d) = Some Dir))"
proof (induction ds arbitrary: fs)
  case Nil
  then show ?case by simp
next
  case (Cons d rest)
  let ?p = "os_path_join base d"
  from makedirs_cases [OF Cons.prems(1), of ?p] show ?case
  proof
    assume "\<exists>e. makedirs ?p True fs = (Some e, fs)"
    then obtain e where e: "makedirs ?p True fs = (Some e, fs)" by blast
    then have "r = Some e" "fs' = fs" using Cons.prems(2) by auto
    then show ?thesis using e Cons.prems(1) by simp
  next
    assume a: "makedirs ?p True fs = (None, add_dirs ?p fs) \<and> \<not> blocked fs ?p"
    let ?fs1 = "add_dirs ?p fs"
    have wf1: "well_formed ?fs1" using Cons.prems(1) a by (simp add: wf_add_dirs)
    have rest: "makedirs_each base rest ?fs1 = (r, fs')" using Cons.prems(2) a by simp
    note ih = Cons.IH [OF wf1 rest]
    have le: "fs \<subseteq>\<^sub>m fs'" using add_dirs_le [of fs ?p] ih by (blast intro: map_le_trans)
    have "?fs1 ?p = Some Dir" using a by (simp add: add_dirs_target)
    then have dir: "fs' ?p = Some Dir" using ih by (auto simp: map_le_def dom_def)
    then have "makedirs ?p True fs' = (None, fs')" using ih by (simp add: makedirs_noop)
    then show ?thesis using ih le dir by simp
  qed
qed

lemma makedirs_each_noop:
  "well_formed fs \<Longrightarrow> \<forall>d\<in>set ds. fs (os_path_join base d) = Some Dir \<Longrightarrow>
     makedirs_each base ds fs = (None, fs)"
  by (induction ds) (simp_all add: makedirs_noop)

lemma open_each_rerun:
  "well_formed fs \<Longrightarrow> open_each base fl fs = (r, fs') \<Longrightarrow>
     well_formed fs' \<and> fs \<subseteq>\<^sub>m fs' \<and> open_each base fl fs' = (r, fs')"
proof (induction fl arbitrary: fs)
  case Nil
  then show ?case by simp
next
  case (Cons f rest)
  let ?p = "os_path_join base f"
  show ?case
  proof (cases "open_append_close ?p fs")
    case (Inl e)
    then have "r = Some e" "fs' = fs" using Cons.prems(2) by auto
    then show ?thesis using Inl Cons.prems(1) by simp
  next
    case (Inr fs1)
    note res = open_result [OF Cons.prems(1) Inr]
    have rest: "open_each base rest fs1 = (r, fs')" using Cons.prems(2) Inr by simp
    note ih = Cons.IH [OF _ rest]
    have wf': "well_formed fs'" and le1: "fs1 \<subseteq>\<^sub>m fs'"
      and again: "open_each base rest fs' = (r, fs')" using ih res by auto
    have le: "fs \<subseteq>\<^sub>m fs'" using res le1 by (blast intro: map_le_trans)
    obtain content where "fs1 ?p = Some (File content)" using res by blast
    then have "fs' ?p = Some (File content)" using le1 by (auto simp: map_le_def dom_def)
    then have "open_append_close ?p fs' = Inr fs'" using wf' by (simp add: open_existing)
    then show ?thesis using wf' le again by simp
  qed
qed

text \<open>The example states are file systems.\<close>

lemma well_formed_empty_fs: "well_formed empty_fs"
  by (simp add: well_formed_def empty_fs_def)

lemma well_formed_occupied_fs: "well_formed occupied_fs"
  by (auto simp: well_formed_def occupied_fs_def split: if_splits)

lemma well_formed_readme_fs: "well_formed readme_fs"
  by (auto simp: well_formed_def readme_fs_def split: if_splits)

text \<open>
  C10. Running \<open>create_folder_structure\<close> a second time changes nothing: on the file
  system the first run leaves, the script ends as the first run did and leaves that file
  system as it is, whether the first run completed or raised on the way. And no run
  destroys anything: every path that existed keeps its node, so a placeholder file that
  already had content keeps that content.
\<close>

theorem C10_idempotent_preserving:
  assumes wf: "well_formed fs"
  shows "create_folder_structure base (snd (create_folder_structure base fs)) =
           create_folder_structure base fs \<and>
         (\<forall>p n. fs p = Some n \<longrightarrow> snd (create_folder_structure base fs) p = Some n)"
proof -
  obtain r1 fs1 where m: "makedirs_each base folders fs = (r1, fs1)" by force
  note m' = makedirs_each_rerun [OF wf m]
  show ?thesis
  proof (cases r1)
    case (Some e)
    then have "create_folder_structure base fs = (Some e, fs1)"
      using m by (simp add: create_folder_structure_def)
    moreover have "create_folder_structure base fs1 = (Some e, fs1)"
      using m' Some by (simp add: create_folder_structure_def)
    ultimately show ?thesis using m' by (auto simp: map_le_def dom_def)
  next
    case None
    obtain r2 fs2 where t: "open_each base files fs1 = (r2, fs2)" by force
    have wf1: "well_formed fs1" using m' by simp
    note t' = open_each_rerun [OF wf1 t]
    have first: "create_folder_structure base fs = (r2, fs2)"
      using m None t by (simp add: create_folder_structure_def)
    have "\<forall>d\<in>set folders. fs2 (os_path_join base d) = Some Dir"
      using m' None t' by (auto simp: map_le_def dom_def)
    then have "makedirs_each base folders fs2 = (None, fs2)"
      using t' by (simp add: makedirs_each_noop)
    then have second: "create_folder_structure base fs2 = (r2, fs2)"
      using t' by (simp add: create_folder_structure_def)
    have "fs \<subseteq>\<^sub>m fs2" using m' t' by (blast intro: map_le_trans)
    then show ?thesis using first second by (auto simp: map_le_def dom_def)
  qed
qed

theorem C10_idempotent_preserving_witness:
  "well_formed readme_fs \<and>
   create_folder_structure [''project''] (snd (create_folder_structure [''project''] readme_fs)) =
     create_folder_structure [''project''] readme_fs \<and>
   snd (create_folder_structure [''project''] readme_fs) [''project'', ''README.md''] =
     Some (File ''notes'')"
proof -
  have r: "readme_fs [''project'', ''README.md''] = Some (File ''notes'')"
    by (simp add: readme_fs_def)
  show ?thesis
    using C10_idempotent_preserving [OF well_formed_readme_fs, of "[''project'']"] r
      well_formed_readme_fs by blast
qed

lemma makedirs_each_free:
  "well_formed fs \<Longrightarrow> \<forall>d\<in>set ds. \<not> blocked fs (os_path_join base d) \<Longrightarrow>
     \<exists>fs'. makedirs_each base ds fs = (None, fs') \<and>
       (\<forall>q. fs' q = fs q \<or>
            (fs q = None \<and> fs' q = Some Dir \<and> (\<exists>d\<in>set ds. prefix q (os_path_join base d))))"
proof (induction ds arbitrary: fs)
  case Nil
  then show ?case by simp
next
  case (Cons d rest)
  let ?p = "os_path_join base d"
  let ?fs1 = "add_dirs ?p fs"
  have free: "\<not> blocked fs ?p" using Cons.prems(2) by simp
  have step: "makedirs ?p True fs = (None, ?fs1)"
    using Cons.prems(1) free by (rule makedirs_free)
  have wf1: "well_formed ?fs1" using Cons.prems(1) free by (rule wf_add_dirs)
  have "\<forall>d\<in>set rest. \<not> blocked ?fs1 (os_path_join base d)"
    using Cons.prems(2) by (simp add: blocked_add_dirs)
  from Cons.IH [OF wf1 this] obtain fs' where
    run: "makedirs_each base rest ?fs1 = (None, fs')" and
    new: "\<forall>q. fs' q = ?fs1 q \<or>
            (?fs1 q = None \<and> fs' q = Some Dir \<and> (\<exists>d\<in>set rest. prefix q (os_path_join base d)))"
    by blast
  have "\<forall>q. fs' q = fs q \<or>
          (fs q = None \<and> fs' q = Some Dir \<and> (\<exists>d\<in>set (d # rest). prefix q (os_path_join base d)))"
  proof
    fix q
    from new have "fs' q = ?fs1 q \<or>
        (?fs1 q = None \<and> fs' q = Some Dir \<and> (\<exists>d\<in>set rest. prefix q (os_path_join base d)))" ..
    then show "fs' q = fs q \<or>
          (fs q = None \<and> fs' q = Some Dir \<and> (\<exists>d\<in>set (d # rest). prefix q (os_path_join base d)))"
      by (auto simp: add_dirs_def split: if_splits)
  qed
  then show ?case using step run by simp
qed

lemma open_each_free:
  "well_formed fs \<Longrightarrow>
   \<forall>f\<in>set fl. f \<noteq> [] \<and> fs (os_path_join base (butlast f)) = Some Dir \<and>
               fs (os_path_join base f) \<noteq> Some Dir \<Longrightarrow>
     \<exists>fs'. open_each base fl fs = (None, fs') \<and>
       (\<forall>f\<in>set fl. fs' (os_path_join base f) =
          (case fs (os_path_join base f) of None \<Rightarrow> Some (File []) | Some n \<Rightarrow> Some n))"
proof (induction fl arbitrary: fs)
  case Nil
  then show ?case by simp
next
  case (Cons f rest)
  let ?p = "os_path_join base f"
  let ?parent = "os_path_join base (butlast f)"
  have f: "f \<noteq> []" and dir: "fs ?parent = Some Dir" and nodir: "fs ?p \<noteq> Some Dir"
    using Cons.prems(2) by auto
  have p: "?p = ?parent @ [last f]" using f by (simp add: os_path_join_def)
  obtain fs1 where step: "open_append_close ?p fs = Inr fs1"
    and fs1: "fs1 = (case fs ?p of None \<Rightarrow> fs(?p \<mapsto> File []) | Some n \<Rightarrow> fs)"
  proof (cases "fs ?p")
    case None
    then have "open_append_close ?p fs = Inr (fs(?p \<mapsto> File []))"
      using open_new [OF Cons.prems(1) dir, of "last f"] p by simp
    then show ?thesis using that None by simp
  next
    case (Some n)
    then obtain content where "fs ?p = Some (File content)" using nodir by (cases n) auto
    then have "open_append_close ?p fs = Inr fs" using Cons.prems(1) by (simp add: open_existing)
    then show ?thesis using that Some by simp
  qed
  note res = open_result [OF Cons.prems(1) step]
  have wf1: "well_formed fs1" using res by simp
  have pre: "\<forall>g\<in>set rest. g \<noteq> [] \<and> fs1 (os_path_join base (butlast g)) = Some Dir \<and>
               fs1 (os_path_join base g) \<noteq> Some Dir"
  proof
    fix g assume g: "g \<in> set rest"
    then have g1: "g \<noteq> []" and g2: "fs (os_path_join base (butlast g)) = Some Dir"
      and g3: "fs (os_path_join base g) \<noteq> Some Dir" using Cons.prems(2) by auto
    have "fs1 (os_path_join base (butlast g)) = Some Dir"
      using g2 res by (auto simp: map_le_def dom_def)
    moreover have "fs1 (os_path_join base g) \<noteq> Some Dir"
      using g3 by (auto simp: fs1 split: option.splits if_splits)
    ultimately show "g \<noteq> [] \<and> fs1 (os_path_join base (butlast g)) = Some Dir \<and>
               fs1 (os_path_join base g) \<noteq> Some Dir" using g1 by simp
  qed
  from Cons.IH [OF wf1 pre] obtain fs' where
    run: "open_each base rest fs1 = (None, fs')" and
    post: "\<forall>g\<in>set rest. fs' (os_path_join base g) =
          (case fs1 (os_path_join base g) of None \<Rightarrow> Some (File []) | Some n \<Rightarrow> Some n)"
    by blast
  have le: "fs1 \<subseteq>\<^sub>m fs'" using open_each_rerun [OF wf1 run] by simp
  have here: "fs' ?p = (case fs ?p of None \<Rightarrow> Some (File []) | Some n \<Rightarrow> Some n)"
  proof -
    have "fs1 ?p = (case fs ?p of None \<Rightarrow> Some (File []) | Some n \<Rightarrow> Some n)"
      by (simp add: fs1 split: option.splits)
    moreover have "fs1 ?p \<noteq> None" using res by auto
    ultimately show ?thesis using le by (auto simp: map_le_def dom_def)
  qed
  have "\<forall>g\<in>set (f # rest). fs' (os_path_join base g) =
          (case fs (os_path_join base g) of None \<Rightarrow> Some (File []) | Some n \<Rightarrow> Some n)"
  proof
    fix g assume "g \<in> set (f # rest)"
    then consider "g = f" | "g \<in> set rest" by auto
    then show "fs' (os_path_join base g) =
          (case fs (os_path_join base g) of None \<Rightarrow> Some (File []) | Some n \<Rightarrow> Some n)"
    proof cases
      case 1 then show ?thesis using here by simp
    next
      case 2
      then have "fs' (os_path_join base g) =
          (case fs1 (os_path_join base g) of None \<Rightarrow> Some (File []) | Some n \<Rightarrow> Some n)"
        using post by blast
      then show ?thesis by (auto simp: fs1 split: option.splits if_splits)
    qed
  qed
  then show ?case using step run by simp
qed

lemma files_nonempty: "\<forall>f\<in>set files. f \<noteq> []"
  by (simp add: files_def)

lemma files_parents: "\<forall>f\<in>set files. butlast f = [] \<or> butlast f \<in> set folders"
  by (simp add: files_def folders_def)

lemma files_not_folders: "\<forall>f\<in>set files. \<forall>d\<in>set folders. \<not> prefix f d"
  by (simp add: files_def folders_def)

lemma prefix_join: "prefix (os_path_join base f) (os_path_join base d) = prefix f d"
  by (simp add: os_path_join_def)

text \<open>
  C9. In a file system where none of the twelve directory paths under the base path is
  blocked by a regular file (at the path or on the way to it, the base path included)
  and none of the seventeen file paths is a directory, \<open>create_folder_structure\<close>
  returns normally; afterwards each of the twelve paths is a directory and each of the
  seventeen is a regular file: empty if it did not exist before, as it was otherwise.
\<close>

theorem C9_creates_structure:
  assumes wf: "well_formed fs"
    and free: "\<forall>d\<in>set folders. \<not> blocked fs (os_path_join base d)"
    and nodir: "\<forall>f\<in>set files. fs (os_path_join base f) \<noteq> Some Dir"
  shows "fst (create_folder_structure base fs) = None \<and>
         (\<forall>d\<in>set folders. snd (create_folder_structure base fs) (os_path_join base d) = Some Dir) \<and>
         (\<forall>f\<in>set files. snd (create_folder_structure base fs) (os_path_join base f) =
            (case fs (os_path_join base f) of None \<Rightarrow> Some (File []) | Some n \<Rightarrow> Some n)) \<and>
         length folders = 12 \<and> length files = 17"
proof -
  obtain fs1 where m: "makedirs_each base folders fs = (None, fs1)"
    and new: "\<forall>q. fs1 q = fs q \<or>
        (fs q = None \<and> fs1 q = Some Dir \<and> (\<exists>d\<in>set folders. prefix q (os_path_join base d)))"
    using makedirs_each_free [OF wf free] by blast
  note m' = makedirs_each_rerun [OF wf m]
  have wf1: "well_formed fs1" and dirs: "\<forall>d\<in>set folders. fs1 (os_path_join base d) = Some Dir"
    using m' by simp_all
  have same: "fs1 (os_path_join base f) = fs (os_path_join base f)" if f: "f \<in> set files" for f
  proof -
    have "\<not> (\<exists>d\<in>set folders. prefix (os_path_join base f) (os_path_join base d))"
      using files_not_folders f by (simp add: prefix_join)
    then show ?thesis using new by blast
  qed
  have "fs1 (os_path_join base [''envs'']) = Some Dir" using dirs by (simp add: folders_def)
  then have "fs1 (base @ [''envs'']) \<noteq> None" by (simp add: os_path_join_def)
  then have base: "fs1 base = Some Dir" using wf_append [OF wf1, of base "[''envs'']"] by simp
  have pre: "\<forall>f\<in>set files. f \<noteq> [] \<and> fs1 (os_path_join base (butlast f)) = Some Dir \<and>
               fs1 (os_path_join base f) \<noteq> Some Dir"
  proof
    fix f assume f: "f \<in> set files"
    have "butlast f = [] \<or> butlast f \<in> set folders" using files_parents f by blast
    then have "fs1 (os_path_join base (butlast f)) = Some Dir"
      using base dirs by (auto simp: os_path_join_def)
    then show "f \<noteq> [] \<and> fs1 (os_path_join base (butlast f)) = Some Dir \<and>
               fs1 (os_path_join base f) \<noteq> Some Dir"
      using files_nonempty f nodir same [OF f] by simp
  qed
  obtain fs2 where t: "open_each base files fs1 = (None, fs2)"
    and post: "\<forall>f\<in>set files. fs2 (os_path_join base f) =
          (case fs1 (os_path_join base f) of None \<Rightarrow> Some (File []) | Some n \<Rightarrow> Some n)"
    using open_each_free [OF wf1 pre] by blast
  have le: "fs1 \<subseteq>\<^sub>m fs2" using open_each_rerun [OF wf1 t] by simp
  have run: "create_folder_structure base fs = (None, fs2)"
    using m t by (simp add: create_folder_structure_def)
  have "\<forall>d\<in>set folders. fs2 (os_path_join base d) = Some Dir"
    using dirs le by (auto simp: map_le_def dom_def)
  moreover have "\<forall>f\<in>set files. fs2 (os_path_join base f) =
            (case fs (os_path_join base f) of None \<Rightarrow> Some (File []) | Some n \<Rightarrow> Some n)"
    using post same by simp
  moreover have "length folders = 12" by (simp add: folders_def)
  moreover have "length files = 17" by (simp add: files_def)
  ultimately show ?thesis using run by simp
qed

theorem C9_creates_structure_witness:
  "well_formed empty_fs \<and>
   fst (create_folder_structure [''project''] empty_fs) = None \<and>
   snd (create_folder_structure [''project''] empty_fs) [''project'', ''data'', ''external''] =
     Some Dir \<and>
   snd (create_folder_structure [''project''] empty_fs)
       [''project'', ''src'', ''modeling'', ''train.py''] = Some (File [])"
proof -
  have free: "\<forall>d\<in>set folders. \<not> blocked empty_fs (os_path_join [''project''] d)"
    by (simp add: blocked_def empty_fs_def)
  have nodir: "\<forall>f\<in>set files. empty_fs (os_path_join [''project''] f) \<noteq> Some Dir"
    by (simp add: empty_fs_def os_path_join_def)
  note c9 = C9_creates_structure [OF well_formed_empty_fs free nodir]
  have d: "[''data'', ''external''] \<in> set folders" by (simp add: folders_def)
  have f: "[''src'', ''modeling'', ''train.py''] \<in> set files" by (simp add: files_def)
  have ok: "fst (create_folder_structure [''project''] empty_fs) = None"
    using c9 by blast
  have new: "empty_fs (os_path_join [''project''] [''src'', ''modeling'', ''train.py'']) = None"
    by (simp add: empty_fs_def os_path_join_def)
  have "snd (create_folder_structure [''project''] empty_fs)
          (os_path_join [''project''] [''data'', ''external'']) = Some Dir"
    using c9 d by blast
  moreover have "snd (create_folder_structure [''project''] empty_fs)
          (os_path_join [''project''] [''src'', ''modeling'', ''train.py'']) =
        (case empty_fs (os_path_join [''project''] [''src'', ''modeling'', ''train.py'']) of
           None \<Rightarrow> Some (File []) | Some n \<Rightarrow> Some n)"
    using c9 f by blast
  ultimately show ?thesis
    using ok new well_formed_empty_fs by (simp add: os_path_join_def)
qed

text \<open>
  The claim as first stated, for every base path whatever the file system holds, fails
  where the base path names a regular file: the first \<open>makedirs\<close> raises, and none of
  the directories exists afterwards.
\<close>

theorem C9_creates_structure_counterexample:
  "well_formed occupied_fs \<and>
   fst (create_folder_structure [''project''] occupied_fs) = Some NotADirectoryError \<and>
   snd (create_folder_structure [''project''] occupied_fs) [''project'', ''data'', ''external''] =
     None"
proof -
  have "fst (create_folder_structure [''project''] occupied_fs) = Some NotADirectoryError"
    by code_simp
  moreover have "snd (create_folder_structure [''project''] occupied_fs)
      [''project'', ''data'', ''external''] = None"
    by code_simp
  ultimately show ?thesis using well_formed_occupied_fs by simp
qed

end
